theory Spec2Isabelle
  imports Main "HOL-Library.Sublist"
begin

section \<open>Python values, errors and console output\<close>

text \<open>
  The script \<^verbatim>\<open>genn.py\<close> turns paper records (from a CSV file or from manual
  entries) into Markdown tables and splices them into a README after a marker token.
  A Python \<^verbatim>\<open>str\<close> is modelled as a \<^typ>\<open>string\<close>, read as a list of code points
  below 256. A value stored in a record is a string or \<^verbatim>\<open>None\<close> (the value
  \<^verbatim>\<open>csv.DictReader\<close> gives a column that a short row does not reach).
\<close>

datatype pyval = PNone | PStr string

datatype py_error = KeyError | TypeError | ValueError | IndexError | FileNotFoundError

text \<open>
  What the script prints, one constructor per \<^verbatim>\<open>print\<close> statement:
  \<^item> \<open>DetectedColumns\<close>: \<^verbatim>\<open>print(f"Detected column names: {reader.fieldnames}")\<close>
  \<^item> \<open>SkippingMalformed\<close>: \<^verbatim>\<open>print(f"Skipping malformed entry: {entry}")\<close>
  \<^item> \<open>TokenNotFound\<close>: \<^verbatim>\<open>print(f"Token '{token}' not found in {readme_path}. Appending tables at the end.")\<close>
  \<^item> \<open>ReadmeUpdated\<close>: \<^verbatim>\<open>print(f"README has been updated with new tables at {readme_path}")\<close>
  \<^item> \<open>TablesWritten\<close>: \<^verbatim>\<open>print(f"Markdown tables have been written to {args.output}")\<close>
\<close>

datatype event =
    DetectedColumns "string list option"
  | SkippingMalformed string
  | TokenNotFound string
  | ReadmeUpdated string
  | TablesWritten string

text \<open>\<^verbatim>\<open>str(v)\<close>, as an f-string formats a value.\<close>

fun py_str :: "pyval \<Rightarrow> string" where
  "py_str PNone = ''None''"
| "py_str (PStr s) = s"

text \<open>The truth value of \<^verbatim>\<open>entry.get(key)\<close>: a missing key gives \<^verbatim>\<open>None\<close>.\<close>

fun truthy :: "pyval option \<Rightarrow> bool" where
  "truthy None = False"
| "truthy (Some PNone) = False"
| "truthy (Some (PStr s)) = (s \<noteq> [])"

section \<open>String operations of Python used by the script\<close>

abbreviation NL :: string where
  "NL \<equiv> [CHR 0x0A]"

text \<open>\<^verbatim>\<open>sub in s\<close>\<close>

fun py_in :: "string \<Rightarrow> string \<Rightarrow> bool" where
  "py_in sub [] = (sub = [])"
| "py_in sub (c # cs) = (prefix sub (c # cs) \<or> py_in sub cs)"

text \<open>\<^verbatim>\<open>str.isspace\<close> of one character, on the code points below 256.\<close>

definition py_isspace :: "char \<Rightarrow> bool" where
  "py_isspace c = (of_char c \<in> {9, 10, 11, 12, 13, 28, 29, 30, 31, 32, 133, 160 :: nat})"

text \<open>\<^verbatim>\<open>s.strip()\<close>\<close>

definition py_strip :: "string \<Rightarrow> string" where
  "py_strip s = rev (dropWhile py_isspace (rev (dropWhile py_isspace s)))"

text \<open>\<^verbatim>\<open>s.rstrip(chars)\<close>: every trailing character that is one of \<open>chars\<close> goes.\<close>

definition py_rstrip :: "string \<Rightarrow> string \<Rightarrow> string" where
  "py_rstrip chars s = rev (dropWhile (\<lambda>c. c \<in> set chars) (rev s))"

text \<open>
  \<^verbatim>\<open>s.replace(old, new)\<close>: the occurrences of \<open>old\<close> are replaced from left to right,
  without overlap. \<open>replace_from\<close> is the scan for a non-empty \<open>old\<close>.
\<close>

fun replace_from :: "string \<Rightarrow> string \<Rightarrow> string \<Rightarrow> string" where
  "replace_from old new [] = []"
| "replace_from old new (c # cs) =
     (if prefix old (c # cs) then new @ replace_from old new (drop (length old - 1) cs)
      else c # replace_from old new cs)"

definition py_replace :: "string \<Rightarrow> string \<Rightarrow> string \<Rightarrow> string" where
  "py_replace old new s =
     (if old = [] then new @ concat (map (\<lambda>c. c # new) s) else replace_from old new s)"

text \<open>\<^verbatim>\<open>s.split(sep)\<close> for a separator of one character.\<close>

fun py_split :: "char \<Rightarrow> string \<Rightarrow> string list" where
  "py_split sep [] = [[]]"
| "py_split sep (c # cs) =
     (if c = sep then [] # py_split sep cs
      else (case py_split sep cs of
              [] \<Rightarrow> [[c]]
            | p # ps \<Rightarrow> (c # p) # ps))"

text \<open>
  \<^verbatim>\<open>s.split(sep, 1)\<close>: the text before the first occurrence of \<open>sep\<close> and the text
  after it, or \<open>s\<close> alone when \<open>sep\<close> does not occur; an empty separator raises
  \<^verbatim>\<open>ValueError\<close>.
\<close>

fun split_first :: "string \<Rightarrow> string \<Rightarrow> string list" where
  "split_first sep [] = [[]]"
| "split_first sep (c # cs) =
     (if prefix sep (c # cs) then [[], drop (length sep) (c # cs)]
      else (case split_first sep cs of
              [] \<Rightarrow> [[c]]
            | p # ps \<Rightarrow> (c # p) # ps))"

definition py_split1 :: "string \<Rightarrow> string \<Rightarrow> py_error + string list" where
  "py_split1 sep s = (if sep = [] then Inl ValueError else Inr (split_first sep s))"

section \<open>Dictionaries\<close>

text \<open>
  A Python \<^verbatim>\<open>dict\<close> keeps its keys in insertion order, and the script iterates over
  \<^verbatim>\<open>items()\<close>: a dictionary is an association list in insertion order.
  \<open>map_of d k\<close> is the lookup.
\<close>

type_synonym ('k, 'v) dict = "('k \<times> 'v) list"

text \<open>\<^verbatim>\<open>d[k] = v\<close>\<close>

fun dict_set :: "'k \<Rightarrow> 'v \<Rightarrow> ('k, 'v) dict \<Rightarrow> ('k, 'v) dict" where
  "dict_set k v [] = [(k, v)]"
| "dict_set k v ((k', v') # d) =
     (if k' = k then (k', v) # d else (k', v') # dict_set k v d)"

text \<open>\<^verbatim>\<open>d.get(k, default)\<close>\<close>

definition dict_get :: "('k, 'v) dict \<Rightarrow> 'k \<Rightarrow> 'v \<Rightarrow> 'v" where
  "dict_get d k dflt = (case map_of d k of None \<Rightarrow> dflt | Some v \<Rightarrow> v)"

text \<open>
  \<^verbatim>\<open>data[k].append(v)\<close> on a \<^verbatim>\<open>defaultdict(list)\<close>: a missing key is first
  inserted with the empty list.
\<close>

definition dd_append :: "'k \<Rightarrow> 'v \<Rightarrow> ('k, 'v list) dict \<Rightarrow> ('k, 'v list) dict" where
  "dd_append k v d = dict_set k (dict_get d k [] @ [v]) d"

type_synonym entry = "(string, pyval) dict"
type_synonym data = "(pyval, entry list) dict"
type_synonym tables = "(pyval, string) dict"

section \<open>Input loader\<close>

text \<open>
  \<^verbatim>\<open>csv.DictReader(csvfile)\<close> is taken as what the library hands to the script: the
  field names (\<^verbatim>\<open>None\<close> for a file with no line at all) and the rows of fields.
  \<open>dict_row\<close> is the dictionary the reader builds from one row: the field names zipped
  with the fields, and \<^verbatim>\<open>None\<close> for every field name a short row does not reach.
  (The fields beyond the last field name go under the key \<^verbatim>\<open>None\<close>, which the script
  never reads; they are left out.) Rows with no field are skipped by the reader.
\<close>

record csv_reader =
  fieldnames :: "string list option"
  rows :: "string list list"

definition dict_row :: "string list \<Rightarrow> string list \<Rightarrow> entry" where
  "dict_row fs row =
     fold (\<lambda>k d. dict_set k PNone d) (drop (length row) fs)
       (fold (\<lambda>(k, v) d. dict_set k (PStr v) d) (zip fs row) [])"

definition reader_rows :: "string list \<Rightarrow> string list list \<Rightarrow> entry list" where
  "reader_rows fs rs = map (dict_row fs) (filter (\<lambda>r. r \<noteq> []) rs)"

text \<open>The loop \<^verbatim>\<open>for row in reader: data[row['topic']].append(row)\<close>.\<close>

fun csv_loop :: "entry list \<Rightarrow> data \<Rightarrow> py_error + data" where
  "csv_loop [] data = Inr data"
| "csv_loop (row # rest) data =
     (case map_of row ''topic'' of
        None \<Rightarrow> Inl KeyError
      | Some topic \<Rightarrow> csv_loop rest (dd_append topic row data))"

definition load_data_from_csv :: "csv_reader \<Rightarrow> event list \<times> (py_error + data)" where
  "load_data_from_csv reader =
     ([DetectedColumns (fieldnames reader)],
      (case fieldnames reader of
         None \<Rightarrow> Inl TypeError
       | Some fs \<Rightarrow>
           if ''topic'' \<notin> set fs then Inl ValueError
           else csv_loop (reader_rows fs (rows reader)) []))"

text \<open>The dictionary that \<^verbatim>\<open>collect_manual_data\<close> appends for one entry.\<close>

definition manual_record ::
  "string \<Rightarrow> string \<Rightarrow> string \<Rightarrow> string \<Rightarrow> string \<Rightarrow> string \<Rightarrow> entry" where
  "manual_record title authors code arxiv_page project_page summary =
     [(''title'', PStr (py_strip title)),
      (''authors'', PStr (py_strip authors)),
      (''code'', PStr (py_strip code)),
      (''arxiv page'', PStr (py_strip arxiv_page)),
      (''project page'', PStr (py_strip project_page)),
      (''summary'', PStr (py_strip summary))]"

text \<open>
  One pass of the loop of \<^verbatim>\<open>collect_manual_data\<close>. Nothing in the \<^verbatim>\<open>try\<close> block
  raises \<^verbatim>\<open>ValueError\<close> (the seven names are unpacked only when there are seven
  parts), so the handler has no branch here.
\<close>

fun manual_step :: "string \<Rightarrow> data \<times> event list \<Rightarrow> data \<times> event list" where
  "manual_step entry (data, out) =
     (case py_split CHR '';'' entry of
        [topic, title, authors, code, arxiv_page, project_page, summary] \<Rightarrow>
          (dd_append (PStr topic)
             (manual_record title authors code arxiv_page project_page summary) data, out)
      | _ \<Rightarrow> (data, out @ [SkippingMalformed entry]))"

definition collect_manual_data :: "string list \<Rightarrow> data \<times> event list" where
  "collect_manual_data entries = fold manual_step entries ([], [])"

section \<open>Badge generator\<close>

definition generate_code_badge :: "string \<Rightarrow> string" where
  "generate_code_badge code_url =
     (if py_in ''github.com'' code_url then
        (let repo_name = py_replace ''https://github.com/'' '''' (py_rstrip ''/'' code_url)
         in ''[![GitHub](https://img.shields.io/github/stars/'' @ repo_name
              @ ''?style=social)]('' @ code_url @ '')'')
      else '''')"

definition generate_arxiv_badge :: "string \<Rightarrow> string" where
  "generate_arxiv_badge arxiv_url =
     (if py_in ''arxiv.org'' arxiv_url \<or> py_in ''ar5iv.labs'' arxiv_url then
        (let arxiv_id = last (py_split CHR ''/'' arxiv_url)
         in ''[![arXiv](https://img.shields.io/badge/arXiv-'' @ arxiv_id
              @ ''-b31b1b.svg?style=for-the-badge)]('' @ arxiv_url @ '')'')
      else '''')"

section \<open>Table renderer\<close>

definition header :: string where
  "header = ''|:-------------------|:-------------------|:-------------------:|:-------------------|'' @ NL"

definition table_start :: string where
  "table_start = ''| Title | Authors | Code / arXiv Page | Summary |'' @ NL @ header"

text \<open>
  The body of the loop over the entries of one topic, up to the text it appends to the
  table. The lookups fail in the order of the source: \<^verbatim>\<open>entry['code']\<close>, the two
  \<^verbatim>\<open>in\<close> tests of the badge functions (a \<^verbatim>\<open>TypeError\<close> on \<^verbatim>\<open>None\<close>),
  \<^verbatim>\<open>entry['title']\<close>, \<^verbatim>\<open>entry['authors']\<close>.
\<close>

definition table_row :: "entry \<Rightarrow> py_error + string" where
  "table_row entry =
     (case map_of entry ''code'' of
        None \<Rightarrow> Inl KeyError
      | Some PNone \<Rightarrow> Inl TypeError
      | Some (PStr code_url) \<Rightarrow>
          (let code_badge = generate_code_badge code_url in
           case dict_get entry ''arxiv page'' (PStr '''') of
             PNone \<Rightarrow> Inl TypeError
           | PStr arxiv_url \<Rightarrow>
               (let arxiv_badge = generate_arxiv_badge arxiv_url;
                    summary = dict_get entry ''summary'' (PStr '''');
                    code_arxiv_combined = py_strip (code_badge @ '' '' @ arxiv_badge)
                in case map_of entry ''title'' of
                     None \<Rightarrow> Inl KeyError
                   | Some title0 \<Rightarrow>
                       (let title =
                              (if truthy (map_of entry ''project page'')
                               then ''['' @ py_str title0 @ '']('' @
                                      py_str (dict_get entry ''project page'' PNone) @ '')''
                               else py_str title0)
                        in case map_of entry ''authors'' of
                             None \<Rightarrow> Inl KeyError
                           | Some authors \<Rightarrow>
                               Inr (''| '' @ title @ '' | '' @ py_str authors @ '' | '' @
                                    code_arxiv_combined @ '' | '' @ py_str summary @
                                    '' |'' @ NL)))))"

fun table_loop :: "entry list \<Rightarrow> string \<Rightarrow> py_error + string" where
  "table_loop [] table = Inr table"
| "table_loop (entry # entries) table =
     (case table_row entry of
        Inl e \<Rightarrow> Inl e
      | Inr row \<Rightarrow> table_loop entries (table @ row))"

fun tables_loop :: "data \<Rightarrow> tables \<Rightarrow> py_error + tables" where
  "tables_loop [] tables = Inr tables"
| "tables_loop ((topic, entries) # rest) tables =
     (case table_loop entries table_start of
        Inl e \<Rightarrow> Inl e
      | Inr table \<Rightarrow> tables_loop rest (dict_set topic table tables))"

definition generate_markdown_tables :: "data \<Rightarrow> py_error + tables" where
  "generate_markdown_tables data = tables_loop data []"

section \<open>README patcher\<close>

text \<open>
  The files the script reads and writes are a map from paths to their text; the console
  is the list of what has been printed. Opening a missing file for reading raises
  \<^verbatim>\<open>FileNotFoundError\<close>.
\<close>

record world =
  files :: "string \<rightharpoonup> string"
  console :: "event list"

definition token :: string where
  "token = ''<!-- TABLES_START -->''"

text \<open>The loop that builds \<^verbatim>\<open>new_content\<close>.\<close>

fun sections_loop :: "tables \<Rightarrow> string \<Rightarrow> string" where
  "sections_loop [] new_content = new_content"
| "sections_loop ((topic, table) # rest) new_content =
     sections_loop rest (new_content @ NL @ ''## '' @ py_str topic @ NL @ table @ NL)"

definition update_readme_with_tables :: "tables \<Rightarrow> string \<Rightarrow> world \<Rightarrow> py_error + world" where
  "update_readme_with_tables tbls readme_path w =
     (let new_content = sections_loop tbls [] in
      case files w readme_path of
        None \<Rightarrow> Inl FileNotFoundError
      | Some content \<Rightarrow>
          if py_in token content then
            (case py_split1 token content of
               Inl e \<Rightarrow> Inl e
             | Inr [] \<Rightarrow> Inl IndexError
             | Inr (part0 # _) \<Rightarrow>
                 Inr (w\<lparr>files := (files w)(readme_path \<mapsto> part0 @ token @ new_content),
                        console := console w @ [ReadmeUpdated readme_path]\<rparr>))
          else
            Inr (w\<lparr>files := (files w)(readme_path \<mapsto> content @ NL @ token @ new_content),
                   console := console w @ [TokenNotFound readme_path, ReadmeUpdated readme_path]\<rparr>))"

section \<open>The command line\<close>




section \<open>Facts about the string operations\<close>

lemma py_in_sublist: "py_in sub s = sublist sub s"
  by (induction s) (simp_all add: sublist_Cons_right)

lemma py_in_iff: "py_in sub s \<longleftrightarrow> (\<exists>p q. s = p @ sub @ q)"
  by (simp add: py_in_sublist sublist_def)

lemma py_split_not_Nil: "py_split c s \<noteq> []"
  by (induction s) (auto split: list.splits)

lemma py_split_no_sep: "c \<notin> set s \<Longrightarrow> py_split c s = [s]"
  by (induction s) auto

lemma py_split_append: "py_split c (p @ c # q) = py_split c p @ py_split c q"
proof (induction p)
  case Nil
  show ?case by simp
next
  case (Cons x p)
  obtain p0 ps where "py_split c p = p0 # ps"
    using py_split_not_Nil [of c p] by (cases "py_split c p") auto
  with Cons show ?case by simp
qed

lemma length_py_split: "length (py_split c s) = Suc (count_list s c)"
proof (induction s)
  case Nil
  show ?case by simp
next
  case (Cons x s)
  then show ?case by (cases "py_split c s") auto
qed

text \<open>The last part of a split is the text after the last separator.\<close>

lemma last_py_split:
  "last (py_split c s) = rev (takeWhile (\<lambda>x. x \<noteq> c) (rev s))"
proof (cases "c \<in> set s")
  case False
  then have tw: "takeWhile (\<lambda>x. x \<noteq> c) (rev s) = rev s"
    by (intro takeWhile_eq_all_conv [THEN iffD2]) auto
  show ?thesis using False by (simp add: py_split_no_sep tw)
next
  case True
  define seg where "seg = rev (takeWhile (\<lambda>x. x \<noteq> c) (rev s))"
  define pre where "pre = rev (dropWhile (\<lambda>x. x \<noteq> c) (rev s))"
  have s: "s = pre @ seg"
    unfolding pre_def seg_def
    by (metis rev_append rev_rev_ident takeWhile_dropWhile_id)
  have segc: "c \<notin> set seg"
    unfolding seg_def using set_takeWhileD by fastforce
  have "dropWhile (\<lambda>x. x \<noteq> c) (rev s) \<noteq> []"
    using True by (simp add: dropWhile_eq_Nil_conv)
  then have "hd (dropWhile (\<lambda>x. x \<noteq> c) (rev s)) = c"
    using hd_dropWhile [of "\<lambda>x. x \<noteq> c" "rev s"] by simp
  with \<open>dropWhile (\<lambda>x. x \<noteq> c) (rev s) \<noteq> []\<close> obtain p where "pre = p @ [c]"
    unfolding pre_def by (metis hd_Cons_tl rev.simps(2))
  with s have "s = p @ c # seg" by simp
  then have "py_split c s = py_split c p @ [seg]"
    using segc by (simp add: py_split_append py_split_no_sep)
  then show ?thesis by (simp add: seg_def)
qed

section \<open>Paper badge\<close>

text \<open>
  Claim C5. For every paper URL that contains \<^verbatim>\<open>arxiv.org\<close> or \<^verbatim>\<open>ar5iv.labs\<close>,
  \<open>generate_arxiv_badge\<close> returns the static arXiv badge whose identifier is the last
  path segment of the URL (the text after its last slash), linked to the URL; for every
  other URL it returns the empty string. For \<^verbatim>\<open>https://arxiv.org/abs/2403.12345\<close> the
  identifier is \<^verbatim>\<open>2403.12345\<close>.
\<close>

theorem generate_arxiv_badge_last_segment:
  "generate_arxiv_badge url =
     (if (\<exists>p q. url = p @ ''arxiv.org'' @ q) \<or> (\<exists>p q. url = p @ ''ar5iv.labs'' @ q)
      then ''[![arXiv](https://img.shields.io/badge/arXiv-'' @
             rev (takeWhile (\<lambda>c. c \<noteq> CHR ''/'') (rev url)) @
             ''-b31b1b.svg?style=for-the-badge)]('' @ url @ '')''
      else '''')
   \<and> generate_arxiv_badge ''https://arxiv.org/abs/2403.12345'' =
       ''[![arXiv](https://img.shields.io/badge/arXiv-2403.12345-b31b1b.svg?style=for-the-badge)](https://arxiv.org/abs/2403.12345)''"
proof
  show "generate_arxiv_badge url =
     (if (\<exists>p q. url = p @ ''arxiv.org'' @ q) \<or> (\<exists>p q. url = p @ ''ar5iv.labs'' @ q)
      then ''[![arXiv](https://img.shields.io/badge/arXiv-'' @
             rev (takeWhile (\<lambda>c. c \<noteq> CHR ''/'') (rev url)) @
             ''-b31b1b.svg?style=for-the-badge)]('' @ url @ '')''
      else '''')"
    unfolding generate_arxiv_badge_def py_in_iff last_py_split Let_def by simp
next
  show "generate_arxiv_badge ''https://arxiv.org/abs/2403.12345'' =
       ''[![arXiv](https://img.shields.io/badge/arXiv-2403.12345-b31b1b.svg?style=for-the-badge)](https://arxiv.org/abs/2403.12345)''"
    by (simp add: generate_arxiv_badge_def)
qed

section \<open>Code badge\<close>







section \<open>README patcher: the split at the token\<close>

text \<open>
  \<open>split_first\<close> cuts at the first occurrence: when \<open>pre\<close> is the shortest text with
  \<open>s = pre @ sep @ post\<close>, the two parts are \<open>pre\<close> and \<open>post\<close>.
\<close>

lemma split_first_at_first:
  assumes "sep \<noteq> []"
    and "\<And>p q. pre @ sep @ post = p @ sep @ q \<Longrightarrow> length pre \<le> length p"
  shows "split_first sep (pre @ sep @ post) = [pre, post]"
  using assms(2)
proof (induction pre)
  case Nil
  obtain a as where sep: "sep = a # as"
    using assms(1) by (cases sep) auto
  show ?case by (simp add: sep)
next
  case (Cons c pre)
  have np: "\<not> prefix sep (c # pre @ sep @ post)"
  proof
    assume "prefix sep (c # pre @ sep @ post)"
    then obtain q where "c # pre @ sep @ post = sep @ q"
      by (auto simp: prefix_def)
    then have "(c # pre) @ sep @ post = [] @ sep @ q" by simp
    then have "length (c # pre) \<le> length ([] :: string)"
      by (rule Cons.prems)
    then show False by simp
  qed
  have "split_first sep (pre @ sep @ post) = [pre, post]"
  proof (rule Cons.IH)
    fix p q
    assume "pre @ sep @ post = p @ sep @ q"
    then have "(c # pre) @ sep @ post = (c # p) @ sep @ q" by simp
    then have "length (c # pre) \<le> length (c # p)"
      by (rule Cons.prems)
    then show "length pre \<le> length p" by simp
  qed
  with np show ?case by simp
qed

text \<open>A text that contains \<open>sep\<close> has a first occurrence of it.\<close>

lemma first_occurrence_exists:
  assumes "s = p0 @ sep @ q0"
  shows "\<exists>pre post. s = pre @ sep @ post \<and>
           (\<forall>p q. s = p @ sep @ q \<longrightarrow> length pre \<le> length p)"
proof -
  have "\<exists>q. s = p0 @ sep @ q" using assms by blast
  then obtain pre where pre: "\<exists>q. s = pre @ sep @ q"
    and least: "\<And>p. \<exists>q. s = p @ sep @ q \<Longrightarrow> length pre \<le> length p"
    using ex_has_least_nat [of "\<lambda>p. \<exists>q. s = p @ sep @ q" p0 length] by blast
  from pre obtain post where "s = pre @ sep @ post" by blast
  with least show ?thesis by blast
qed

text \<open>
  The first occurrence stays the first one when the text after it is replaced.
\<close>

lemma first_occurrence_replace_tail:
  assumes least: "\<And>p q. pre @ sep @ post = p @ sep @ q \<Longrightarrow> length pre \<le> length p"
    and eq: "pre @ sep @ x = p @ sep @ q"
  shows "length pre \<le> length p"
proof (rule ccontr)
  assume "\<not> length pre \<le> length p"
  then have lt: "length p < length pre" by simp
  have "take (length p + length sep) (pre @ sep @ x) = take (length p + length sep) (p @ sep @ q)"
    using eq by simp
  then have "take (length p + length sep) (pre @ sep) = p @ sep"
    using lt by simp
  then have "pre @ sep = (p @ sep) @ drop (length p + length sep) (pre @ sep)"
    by (metis append_take_drop_id)
  then have "pre @ sep @ post = p @ sep @ (drop (length p + length sep) (pre @ sep) @ post)"
    by (metis append_assoc)
  then have "length pre \<le> length p" by (rule least)
  with lt show False by simp
qed

text \<open>
  When \<open>sep\<close> does not occur in \<open>s\<close> and the character \<open>c\<close> does not occur in \<open>sep\<close>,
  the first occurrence of \<open>sep\<close> in \<open>s @ c # sep @ x\<close> is the one written there.
\<close>

lemma split_first_appended:
  assumes "sep \<noteq> []" and "c \<notin> set sep" and "\<not> sublist sep s"
  shows "split_first sep (s @ c # sep @ x) = [s @ [c], x]"
  using assms(3)
proof (induction s)
  case Nil
  obtain a as where sep: "sep = a # as"
    using assms(1) by (cases sep) auto
  have "a \<noteq> c" using assms(2) sep by auto
  then show ?case by (simp add: sep)
next
  case (Cons a s)
  then have np: "\<not> prefix sep (a # s)" and ns: "\<not> sublist sep s"
    by (simp_all add: sublist_Cons_right)
  have "\<not> prefix sep ((a # s) @ c # sep @ x)"
  proof
    assume "prefix sep ((a # s) @ c # sep @ x)"
    then have "prefix sep (a # s) \<or> (\<exists>us. sep = (a # s) @ us \<and> prefix us (c # sep @ x))"
      by (simp only: prefix_append)
    with np obtain us where us: "sep = (a # s) @ us" and pu: "prefix us (c # sep @ x)"
      by blast
    show False
    proof (cases us)
      case Nil
      with us np show False by simp
    next
      case (Cons u us')
      with pu have "u = c" by simp
      with us Cons assms(2) show False by simp
    qed
  qed
  with Cons.IH [OF ns] show ?case by simp
qed


lemma token_not_empty: "token \<noteq> []"
  by (simp add: token_def)

lemma newline_not_in_token: "CHR 0x0A \<notin> set token"
  by (simp add: token_def)





text \<open>The two branches of the patcher, for a text whose first token occurrence is known.\<close>

lemma update_readme_at_first_occurrence:
  assumes "files w readme_path = Some (pre @ token @ post)"
    and "\<And>p q. pre @ token @ post = p @ token @ q \<Longrightarrow> length pre \<le> length p"
  shows "update_readme_with_tables tbls readme_path w =
           Inr (w\<lparr>files := (files w)(readme_path \<mapsto> pre @ token @ sections_loop tbls []),
                  console := console w @ [ReadmeUpdated readme_path]\<rparr>)"
proof -
  have inn: "py_in token (pre @ token @ post)"
    by (auto simp: py_in_iff)
  have "split_first token (pre @ token @ post) = [pre, post]"
    using assms(2) by (rule split_first_at_first [OF token_not_empty])
  then have sp: "py_split1 token (pre @ token @ post) = Inr [pre, post]"
    by (simp add: py_split1_def token_not_empty)
  show ?thesis
    by (simp add: update_readme_with_tables_def assms(1) inn sp)
qed

lemma update_readme_token_absent:
  assumes "files w readme_path = Some content" and "\<not> py_in token content"
  shows "update_readme_with_tables tbls readme_path w =
           Inr (w\<lparr>files := (files w)(readme_path \<mapsto> content @ NL @ token @ sections_loop tbls []),
                  console := console w @ [TokenNotFound readme_path, ReadmeUpdated readme_path]\<rparr>)"
  using assms by (simp add: update_readme_with_tables_def)

text \<open>
  Claim C3. Running \<open>update_readme_with_tables\<close> a second time with the same tables on
  the file the first run wrote succeeds and leaves every file as the first run left it:
  the text after the marker (and before it) is the same.
\<close>

theorem update_readme_with_tables_idempotent:
  assumes "update_readme_with_tables tbls readme_path w = Inr w1"
  shows "\<exists>w2. update_readme_with_tables tbls readme_path w1 = Inr w2 \<and> files w2 = files w1"
proof -
  obtain content where f: "files w readme_path = Some content"
    using assms by (cases "files w readme_path") (auto simp: update_readme_with_tables_def)
  let ?new = "sections_loop tbls []"
  show ?thesis
  proof (cases "py_in token content")
    case True
    then obtain pre post where c: "content = pre @ token @ post"
      and least: "\<forall>p q. content = p @ token @ q \<longrightarrow> length pre \<le> length p"
      using first_occurrence_exists [of content _ token] unfolding py_in_iff by blast
    have least': "\<And>p q. pre @ token @ post = p @ token @ q \<Longrightarrow> length pre \<le> length p"
      using least c by blast
    have "update_readme_with_tables tbls readme_path w =
            Inr (w\<lparr>files := (files w)(readme_path \<mapsto> pre @ token @ ?new),
                   console := console w @ [ReadmeUpdated readme_path]\<rparr>)"
      using f c least' by (intro update_readme_at_first_occurrence) auto
    with assms have w1: "w1 = w\<lparr>files := (files w)(readme_path \<mapsto> pre @ token @ ?new),
                   console := console w @ [ReadmeUpdated readme_path]\<rparr>"
      by simp
    then have f1: "files w1 readme_path = Some (pre @ token @ ?new)"
      by simp
    have "update_readme_with_tables tbls readme_path w1 =
            Inr (w1\<lparr>files := (files w1)(readme_path \<mapsto> pre @ token @ ?new),
                    console := console w1 @ [ReadmeUpdated readme_path]\<rparr>)"
      using f1 first_occurrence_replace_tail [of pre token post ?new] least'
      by (intro update_readme_at_first_occurrence) auto
    moreover have "(files w1)(readme_path \<mapsto> pre @ token @ ?new) = files w1"
      using f1 by (simp add: fun_upd_idem)
    ultimately show ?thesis by simp
  next
    case False
    have "update_readme_with_tables tbls readme_path w =
            Inr (w\<lparr>files := (files w)(readme_path \<mapsto> content @ NL @ token @ ?new),
                   console := console w @ [TokenNotFound readme_path, ReadmeUpdated readme_path]\<rparr>)"
      using f False by (rule update_readme_token_absent)
    with assms have w1: "w1 = w\<lparr>files := (files w)(readme_path \<mapsto> content @ NL @ token @ ?new),
                   console := console w @ [TokenNotFound readme_path, ReadmeUpdated readme_path]\<rparr>"
      by simp
    then have f1: "files w1 readme_path = Some (content @ CHR 0x0A # token @ ?new)"
      by simp
    have "content @ CHR 0x0A # token @ ?new = (content @ NL) @ token @ ?new"
      by simp
    then have inn: "py_in token (content @ CHR 0x0A # token @ ?new)"
      unfolding py_in_iff by blast
    have "split_first token (content @ CHR 0x0A # token @ ?new) = [content @ NL, ?new]"
      using False
      by (intro split_first_appended token_not_empty newline_not_in_token)
         (simp add: py_in_sublist)
    then have sp: "py_split1 token (content @ CHR 0x0A # token @ ?new) = Inr [content @ NL, ?new]"
      by (simp add: py_split1_def token_not_empty)
    have "update_readme_with_tables tbls readme_path w1 =
            Inr (w1\<lparr>files := (files w1)(readme_path \<mapsto> content @ CHR 0x0A # token @ ?new),
                    console := console w1 @ [ReadmeUpdated readme_path]\<rparr>)"
      by (simp add: update_readme_with_tables_def f1 inn sp)
    moreover have "(files w1)(readme_path \<mapsto> content @ CHR 0x0A # token @ ?new) = files w1"
      using f1 by (simp add: fun_upd_idem)
    ultimately show ?thesis by simp
  qed
qed

theorem update_readme_with_tables_idempotent_witness:
  "update_readme_with_tables [(PStr ''T'', ''tbl'')] ''README.md''
       \<lparr>files = [''README.md'' \<mapsto> ''intro''], console = []\<rparr> =
     Inr \<lparr>files = [''README.md'' \<mapsto>
                  ''intro'' @ NL @ ''<!-- TABLES_START -->'' @ NL @ ''## T'' @ NL @ ''tbl'' @ NL],
          console = [TokenNotFound ''README.md'', ReadmeUpdated ''README.md'']\<rparr>
   \<and> (\<exists>w2. update_readme_with_tables [(PStr ''T'', ''tbl'')] ''README.md''
              \<lparr>files = [''README.md'' \<mapsto>
                  ''intro'' @ NL @ ''<!-- TABLES_START -->'' @ NL @ ''## T'' @ NL @ ''tbl'' @ NL],
               console = [TokenNotFound ''README.md'', ReadmeUpdated ''README.md'']\<rparr> = Inr w2
        \<and> files w2 = [''README.md'' \<mapsto>
                  ''intro'' @ NL @ ''<!-- TABLES_START -->'' @ NL @ ''## T'' @ NL @ ''tbl'' @ NL])"
proof -
  have run1: "update_readme_with_tables [(PStr ''T'', ''tbl'')] ''README.md''
       \<lparr>files = [''README.md'' \<mapsto> ''intro''], console = []\<rparr> =
     Inr \<lparr>files = [''README.md'' \<mapsto>
                  ''intro'' @ NL @ ''<!-- TABLES_START -->'' @ NL @ ''## T'' @ NL @ ''tbl'' @ NL],
          console = [TokenNotFound ''README.md'', ReadmeUpdated ''README.md'']\<rparr>"
    by (simp add: update_readme_with_tables_def token_def)
  from update_readme_with_tables_idempotent [OF run1] run1
  show ?thesis by simp
qed

section \<open>Table rows\<close>

lemma py_strip_padded:
  assumes "x = [] \<or> (\<not> py_isspace (hd x) \<and> \<not> py_isspace (last x))"
    and "\<forall>c \<in> set l. py_isspace c" and "\<forall>c \<in> set r. py_isspace c"
  shows "py_strip (l @ x @ r) = x"
proof (cases x)
  case Nil
  have "\<forall>c \<in> set (l @ r). py_isspace c"
    using assms(2,3) by auto
  then have d: "dropWhile py_isspace (l @ [] @ r) = []"
    by (simp only: append_Nil dropWhile_eq_Nil_conv)
  show ?thesis unfolding py_strip_def Nil d by simp
next
  case (Cons a x')
  then have a: "\<not> py_isspace a" and b: "\<not> py_isspace (last x)"
    using assms(1) by auto
  have 1: "dropWhile py_isspace (l @ x @ r) = x @ r"
    using assms(2) a by (simp add: dropWhile_append2 Cons)
  have "rev (butlast x @ [last x]) = last x # rev (butlast x)"
    by simp
  then have rx: "rev x = last x # rev (butlast x)"
    using Cons by simp
  have "dropWhile py_isspace (rev r @ rev x) = dropWhile py_isspace (rev x)"
    using assms(3) by (intro dropWhile_append2) auto
  also have "\<dots> = rev x"
    using b by (simp add: rx)
  finally have 2: "dropWhile py_isspace (rev r @ rev x) = rev x" .
  show ?thesis by (simp add: py_strip_def 1 2)
qed

lemma generate_code_badge_shape:
  "generate_code_badge u = [] \<or>
     (hd (generate_code_badge u) = CHR ''['' \<and> last (generate_code_badge u) = CHR '')'')"
  by (simp add: generate_code_badge_def Let_def)

lemma generate_arxiv_badge_shape:
  "generate_arxiv_badge u = [] \<or>
     (hd (generate_arxiv_badge u) = CHR ''['' \<and> last (generate_arxiv_badge u) = CHR '')'')"
  by (simp add: generate_arxiv_badge_def Let_def)

lemma py_strip_badges:
  assumes "cb = [] \<or> (hd cb = CHR ''['' \<and> last cb = CHR '')'')"
    and "ab = [] \<or> (hd ab = CHR ''['' \<and> last ab = CHR '')'')"
  shows "py_strip (cb @ '' '' @ ab) =
           (if cb = [] then ab else if ab = [] then cb else cb @ '' '' @ ab)"
proof -
  have sp: "py_isspace CHR '' ''" and nb: "\<not> py_isspace CHR ''[''" and np: "\<not> py_isspace CHR '')''"
    by (simp_all add: py_isspace_def)
  show ?thesis
  proof (cases "cb = []")
    case True
    have "py_strip ('' '' @ ab @ []) = ab"
      using assms(2) sp nb np by (intro py_strip_padded) auto
    with True show ?thesis by simp
  next
    case cb: False
    show ?thesis
    proof (cases "ab = []")
      case True
      have "py_strip ([] @ cb @ '' '') = cb"
        using assms(1) cb sp nb np by (intro py_strip_padded) auto
      with True cb show ?thesis by simp
    next
      case False
      have "py_strip ([] @ (cb @ '' '' @ ab) @ []) = cb @ '' '' @ ab"
        using assms cb False nb np by (intro py_strip_padded) auto
      with cb False show ?thesis by simp
    qed
  qed
qed

text \<open>
  Claim C9. For a record with a title, authors and a code URL (the arXiv page, the
  project page and the summary may be missing), the rendered row shows the title
  hyperlinked to the project page when the record has a non-empty project page and the
  plain title otherwise; its third cell is the code badge and the paper badge joined by
  one space and trimmed, which is: both badges with a space between them, the one badge
  there is, or nothing.
\<close>

theorem table_row_title_link_and_badge_cell:
  assumes "map_of entry ''title'' = Some (PStr title)"
    and "map_of entry ''authors'' = Some (PStr authors)"
    and "map_of entry ''code'' = Some (PStr code_url)"
    and "map_of entry ''arxiv page'' = Some (PStr arxiv_url) \<or>
         map_of entry ''arxiv page'' = None \<and> arxiv_url = ''''"
    and "map_of entry ''summary'' = Some (PStr summary) \<or>
         map_of entry ''summary'' = None \<and> summary = ''''"
    and "map_of entry ''project page'' = Some (PStr project_page) \<or>
         map_of entry ''project page'' \<in> {None, Some PNone} \<and> project_page = ''''"
  shows "table_row entry =
           Inr (''| '' @
                (if project_page \<noteq> '''' then ''['' @ title @ '']('' @ project_page @ '')''
                 else title) @
                '' | '' @ authors @ '' | '' @
                py_strip (generate_code_badge code_url @ '' '' @ generate_arxiv_badge arxiv_url) @
                '' | '' @ summary @ '' |'' @ NL)
         \<and> py_strip (generate_code_badge code_url @ '' '' @ generate_arxiv_badge arxiv_url) =
             (if generate_code_badge code_url = '''' then generate_arxiv_badge arxiv_url
              else if generate_arxiv_badge arxiv_url = '''' then generate_code_badge code_url
              else generate_code_badge code_url @ '' '' @ generate_arxiv_badge arxiv_url)"
proof
  have a: "dict_get entry ''arxiv page'' (PStr '''') = PStr arxiv_url"
    using assms(4) by (auto simp: dict_get_def)
  have s: "dict_get entry ''summary'' (PStr '''') = PStr summary"
    using assms(5) by (auto simp: dict_get_def)
  have p: "truthy (map_of entry ''project page'') = (project_page \<noteq> '''')"
    using assms(6) by auto
  have p': "project_page \<noteq> '''' \<Longrightarrow> dict_get entry ''project page'' PNone = PStr project_page"
    using assms(6) by (auto simp: dict_get_def)
  show "table_row entry =
           Inr (''| '' @
                (if project_page \<noteq> '''' then ''['' @ title @ '']('' @ project_page @ '')''
                 else title) @
                '' | '' @ authors @ '' | '' @
                py_strip (generate_code_badge code_url @ '' '' @ generate_arxiv_badge arxiv_url) @
                '' | '' @ summary @ '' |'' @ NL)"
    using p' by (simp add: table_row_def assms(1,2,3) a s p Let_def)
next
  show "py_strip (generate_code_badge code_url @ '' '' @ generate_arxiv_badge arxiv_url) =
             (if generate_code_badge code_url = '''' then generate_arxiv_badge arxiv_url
              else if generate_arxiv_badge arxiv_url = '''' then generate_code_badge code_url
              else generate_code_badge code_url @ '' '' @ generate_arxiv_badge arxiv_url)"
    by (rule py_strip_badges [OF generate_code_badge_shape generate_arxiv_badge_shape])
qed

theorem table_row_title_link_and_badge_cell_witness:
  "table_row [(''title'', PStr ''Paper''), (''authors'', PStr ''A. Author''),
              (''code'', PStr ''https://github.com/org/repo/''),
              (''arxiv page'', PStr ''https://arxiv.org/abs/2403.12345''),
              (''project page'', PStr ''https://example.org''),
              (''summary'', PStr ''Short.'')] =
     Inr (''| [Paper](https://example.org) | A. Author | '' @
          ''[![GitHub](https://img.shields.io/github/stars/org/repo?style=social)](https://github.com/org/repo/)'' @
          '' '' @
          ''[![arXiv](https://img.shields.io/badge/arXiv-2403.12345-b31b1b.svg?style=for-the-badge)](https://arxiv.org/abs/2403.12345)'' @
          '' | Short. |'' @ NL)
   \<and> table_row [(''title'', PStr ''Paper''), (''authors'', PStr ''A. Author''),
              (''code'', PStr '''')] =
     Inr (''| Paper | A. Author |  |  |'' @ NL)"
proof -
  have c: "generate_code_badge ''https://github.com/org/repo/'' =
     ''[![GitHub](https://img.shields.io/github/stars/org/repo?style=social)](https://github.com/org/repo/)''"
    by (simp add: generate_code_badge_def py_replace_def py_rstrip_def)
  have a: "generate_arxiv_badge ''https://arxiv.org/abs/2403.12345'' =
     ''[![arXiv](https://img.shields.io/badge/arXiv-2403.12345-b31b1b.svg?style=for-the-badge)](https://arxiv.org/abs/2403.12345)''"
    by (simp add: generate_arxiv_badge_def)
  have c0: "generate_code_badge '''' = ''''"
    by (simp add: generate_code_badge_def)
  have a0: "generate_arxiv_badge '''' = ''''"
    by (simp add: generate_arxiv_badge_def)
  have 1: "table_row [(''title'', PStr ''Paper''), (''authors'', PStr ''A. Author''),
              (''code'', PStr ''https://github.com/org/repo/''),
              (''arxiv page'', PStr ''https://arxiv.org/abs/2403.12345''),
              (''project page'', PStr ''https://example.org''),
              (''summary'', PStr ''Short.'')] =
     Inr (''| [Paper](https://example.org) | A. Author | '' @
          ''[![GitHub](https://img.shields.io/github/stars/org/repo?style=social)](https://github.com/org/repo/)'' @
          '' '' @
          ''[![arXiv](https://img.shields.io/badge/arXiv-2403.12345-b31b1b.svg?style=for-the-badge)](https://arxiv.org/abs/2403.12345)'' @
          '' | Short. |'' @ NL)"
    using table_row_title_link_and_badge_cell
      [of "[(''title'', PStr ''Paper''), (''authors'', PStr ''A. Author''),
              (''code'', PStr ''https://github.com/org/repo/''),
              (''arxiv page'', PStr ''https://arxiv.org/abs/2403.12345''),
              (''project page'', PStr ''https://example.org''),
              (''summary'', PStr ''Short.'')]"
          "''Paper''" "''A. Author''" "''https://github.com/org/repo/''"
          "''https://arxiv.org/abs/2403.12345''" "''Short.''" "''https://example.org''"]
    by (simp add: c a)
  have 2: "table_row [(''title'', PStr ''Paper''), (''authors'', PStr ''A. Author''),
              (''code'', PStr '''')] =
     Inr (''| Paper | A. Author |  |  |'' @ NL)"
    using table_row_title_link_and_badge_cell
      [of "[(''title'', PStr ''Paper''), (''authors'', PStr ''A. Author''),
              (''code'', PStr '''')]"
          "''Paper''" "''A. Author''" "''''" "''''" "''''" "''''"]
    by (simp add: c0 a0)
  from 1 2 show ?thesis by (rule conjI)
qed

section \<open>Tables: failing lookups\<close>

lemma table_row_error_strings:
  assumes "\<forall>k. map_of entry k \<noteq> Some PNone" and "table_row entry = Inl err"
  shows "err = KeyError"
proof (cases "map_of entry ''code''")
  case None
  with assms(2) show ?thesis by (simp add: table_row_def)
next
  case (Some v)
  with assms(1) obtain c where c: "map_of entry ''code'' = Some (PStr c)"
    by (cases v) auto
  have "dict_get entry ''arxiv page'' (PStr '''') \<noteq> PNone"
    using assms(1) by (cases "map_of entry ''arxiv page''") (auto simp: dict_get_def)
  then obtain a where a: "dict_get entry ''arxiv page'' (PStr '''') = PStr a"
    by (cases "dict_get entry ''arxiv page'' (PStr '''')") auto
  show ?thesis
  proof (cases "map_of entry ''title''")
    case None
    with assms(2) c a show ?thesis by (simp add: table_row_def Let_def)
  next
    case t: (Some t)
    show ?thesis
    proof (cases "map_of entry ''authors''")
      case None
      with assms(2) c a t show ?thesis by (simp add: table_row_def Let_def)
    next
      case (Some au)
      with assms(2) c a t show ?thesis by (simp add: table_row_def Let_def)
    qed
  qed
qed

lemma table_row_missing_strings:
  assumes "\<forall>k. map_of entry k \<noteq> Some PNone"
    and "map_of entry ''title'' = None \<or> map_of entry ''authors'' = None"
  shows "table_row entry = Inl KeyError"
proof (cases "map_of entry ''code''")
  case None
  then show ?thesis by (simp add: table_row_def)
next
  case (Some v)
  with assms(1) obtain c where c: "map_of entry ''code'' = Some (PStr c)"
    by (cases v) auto
  have "dict_get entry ''arxiv page'' (PStr '''') \<noteq> PNone"
    using assms(1) by (cases "map_of entry ''arxiv page''") (auto simp: dict_get_def)
  then obtain a where a: "dict_get entry ''arxiv page'' (PStr '''') = PStr a"
    by (cases "dict_get entry ''arxiv page'' (PStr '''')") auto
  show ?thesis
  proof (cases "map_of entry ''title''")
    case None
    with c a show ?thesis by (simp add: table_row_def Let_def)
  next
    case (Some t)
    with assms(2) have "map_of entry ''authors'' = None" by simp
    with c a Some show ?thesis by (simp add: table_row_def Let_def)
  qed
qed

lemma table_row_default:
  assumes k: "k \<in> {''arxiv page'', ''project page'', ''summary''}"
    and n: "map_of entry k = None"
  shows "table_row ((k, PStr '''') # entry) = table_row entry"
proof -
  let ?e = "(k, PStr '''') # entry"
  have f1: "map_of ?e ''code'' = map_of entry ''code''"
    using k by auto
  have f2: "map_of ?e ''title'' = map_of entry ''title''"
    using k by auto
  have f3: "map_of ?e ''authors'' = map_of entry ''authors''"
    using k by auto
  have f4: "dict_get ?e ''arxiv page'' (PStr '''') = dict_get entry ''arxiv page'' (PStr '''')"
    using n by (auto simp: dict_get_def)
  have f5: "dict_get ?e ''summary'' (PStr '''') = dict_get entry ''summary'' (PStr '''')"
    using n by (auto simp: dict_get_def)
  have f6: "truthy (map_of ?e ''project page'') = truthy (map_of entry ''project page'')"
    using n by auto
  show ?thesis
  proof (cases "truthy (map_of entry ''project page'')")
    case True
    then have "k \<noteq> ''project page''" using n by auto
    then have f7: "dict_get ?e ''project page'' PNone = dict_get entry ''project page'' PNone"
      by (simp add: dict_get_def)
    show ?thesis unfolding table_row_def f1 f2 f3 f4 f5 f6 f7 ..
  next
    case False
    then have tr: "truthy (map_of entry ''project page'') = False" by simp
    show ?thesis unfolding table_row_def f1 f2 f3 f4 f5 f6 tr if_False ..
  qed
qed

lemma table_loop_fails:
  assumes "e \<in> set es" and "table_row e = Inl x"
  shows "\<exists>err. table_loop es t = Inl err"
  using assms
proof (induction es arbitrary: t)
  case Nil
  then show ?case by simp
next
  case (Cons a es)
  show ?case
  proof (cases "table_row a")
    case (Inl y)
    then show ?thesis by simp
  next
    case (Inr row)
    with Cons.prems have "e \<in> set es" by auto
    from Cons.IH [OF this Cons.prems(2)] Inr show ?thesis by simp
  qed
qed

lemma table_loop_error_strings:
  assumes "\<forall>e \<in> set es. \<forall>k. map_of e k \<noteq> Some PNone" and "table_loop es t = Inl err"
  shows "err = KeyError"
  using assms
proof (induction es arbitrary: t)
  case Nil
  then show ?case by simp
next
  case (Cons a es)
  show ?case
  proof (cases "table_row a")
    case (Inl y)
    with Cons.prems(2) have "y = err" by simp
    with Inl Cons.prems(1) show ?thesis
      using table_row_error_strings [of a err] by simp
  next
    case (Inr row)
    with Cons.prems(2) have "table_loop es (t @ row) = Inl err" by simp
    with Cons.IH [of "t @ row"] Cons.prems(1) show ?thesis by simp
  qed
qed

lemma tables_loop_fails:
  assumes "(topic, es) \<in> set d" and "table_loop es table_start = Inl x"
  shows "\<exists>err. tables_loop d tbls = Inl err"
  using assms
proof (induction d arbitrary: tbls)
  case Nil
  then show ?case by simp
next
  case (Cons a d)
  obtain t0 es0 where a: "a = (t0, es0)" by (cases a)
  show ?case
  proof (cases "table_loop es0 table_start")
    case (Inl y)
    then show ?thesis by (simp add: a)
  next
    case (Inr table)
    with Cons.prems a have "(topic, es) \<in> set d" by auto
    from Cons.IH [OF this Cons.prems(2)] Inr show ?thesis by (simp add: a)
  qed
qed

lemma tables_loop_error_strings:
  assumes "\<forall>(t, es) \<in> set d. \<forall>e \<in> set es. \<forall>k. map_of e k \<noteq> Some PNone"
    and "tables_loop d tbls = Inl err"
  shows "err = KeyError"
  using assms
proof (induction d arbitrary: tbls)
  case Nil
  then show ?case by simp
next
  case (Cons a d)
  obtain t0 es0 where a: "a = (t0, es0)" by (cases a)
  show ?case
  proof (cases "table_loop es0 table_start")
    case (Inl y)
    with Cons.prems(2) a have "y = err" by simp
    with Inl Cons.prems(1) a show ?thesis
      using table_loop_error_strings [of es0 table_start err] by simp
  next
    case (Inr table)
    with Cons.prems(2) a have "tables_loop d (dict_set t0 table tbls) = Inl err" by simp
    with Cons.IH [of "dict_set t0 table tbls"] Cons.prems(1) show ?thesis by simp
  qed
qed

text \<open>
  Claim C10. \<open>generate_markdown_tables\<close> reads \<^verbatim>\<open>code\<close>, \<^verbatim>\<open>title\<close> and
  \<^verbatim>\<open>authors\<close> of every record unconditionally: a record without \<^verbatim>\<open>code\<close> raises
  \<^verbatim>\<open>KeyError\<close>, and so does a record of strings without \<^verbatim>\<open>title\<close> or
  \<^verbatim>\<open>authors\<close>. The fields \<^verbatim>\<open>arxiv page\<close>, \<^verbatim>\<open>project page\<close> and \<^verbatim>\<open>summary\<close> are
  read with an empty default: a record without one of them renders as with the empty
  string there. Hence data with a record that lacks \<^verbatim>\<open>code\<close> is never rendered:
  \<open>generate_markdown_tables\<close> fails, with \<^verbatim>\<open>KeyError\<close> when every value is a string.
\<close>

theorem generate_markdown_tables_code_required:
  "(map_of entry ''code'' = None \<longrightarrow> table_row entry = Inl KeyError)
   \<and> ((\<forall>k. map_of entry k \<noteq> Some PNone) \<and>
        (map_of entry ''title'' = None \<or> map_of entry ''authors'' = None) \<longrightarrow>
        table_row entry = Inl KeyError)
   \<and> (k \<in> {''arxiv page'', ''project page'', ''summary''} \<and> map_of entry k = None \<longrightarrow>
        table_row ((k, PStr '''') # entry) = table_row entry)
   \<and> ((topic, es) \<in> set d \<and> e \<in> set es \<and> map_of e ''code'' = None \<longrightarrow>
        (\<exists>err. generate_markdown_tables d = Inl err))
   \<and> ((topic, es) \<in> set d \<and> e \<in> set es \<and> map_of e ''code'' = None \<and>
        (\<forall>(t, es') \<in> set d. \<forall>e' \<in> set es'. \<forall>k. map_of e' k \<noteq> Some PNone) \<longrightarrow>
        generate_markdown_tables d = Inl KeyError)"
proof (intro conjI impI)
  assume "map_of entry ''code'' = None"
  then show "table_row entry = Inl KeyError"
    by (simp add: table_row_def)
next
  assume "(\<forall>k. map_of entry k \<noteq> Some PNone) \<and>
        (map_of entry ''title'' = None \<or> map_of entry ''authors'' = None)"
  then show "table_row entry = Inl KeyError"
    using table_row_missing_strings [of entry] by blast
next
  assume "k \<in> {''arxiv page'', ''project page'', ''summary''} \<and> map_of entry k = None"
  then have "k \<in> {''arxiv page'', ''project page'', ''summary''}" and "map_of entry k = None"
    by (rule conjunct1, rule conjunct2)
  then show "table_row ((k, PStr '''') # entry) = table_row entry"
    by (rule table_row_default)
next
  assume h: "(topic, es) \<in> set d \<and> e \<in> set es \<and> map_of e ''code'' = None"
  then have "table_row e = Inl KeyError" by (simp add: table_row_def)
  with h obtain x where "table_loop es table_start = Inl x"
    using table_loop_fails [of e es KeyError table_start] by blast
  with h have "\<exists>err. tables_loop d [] = Inl err"
    using tables_loop_fails [of topic es d x "[]"] by blast
  then show "\<exists>err. generate_markdown_tables d = Inl err"
    by (simp add: generate_markdown_tables_def)
next
  assume h: "(topic, es) \<in> set d \<and> e \<in> set es \<and> map_of e ''code'' = None \<and>
        (\<forall>(t, es') \<in> set d. \<forall>e' \<in> set es'. \<forall>k. map_of e' k \<noteq> Some PNone)"
  then have "table_row e = Inl KeyError" by (simp add: table_row_def)
  with h obtain x where "table_loop es table_start = Inl x"
    using table_loop_fails [of e es KeyError table_start] by blast
  with h obtain err where err: "tables_loop d [] = Inl err"
    using tables_loop_fails [of topic es d x "[]"] by blast
  from h have "\<forall>(t, es') \<in> set d. \<forall>e' \<in> set es'. \<forall>k. map_of e' k \<noteq> Some PNone"
    by blast
  then have "err = KeyError"
    using err by (rule tables_loop_error_strings)
  with err show "generate_markdown_tables d = Inl KeyError"
    by (simp add: generate_markdown_tables_def)
qed
text \<open>
  The example of the claim: a CSV file with the columns \<^verbatim>\<open>topic\<close>, \<^verbatim>\<open>title\<close> and
  \<^verbatim>\<open>authors\<close> loads, and rendering its one row raises \<^verbatim>\<open>KeyError\<close>.
\<close>

theorem generate_markdown_tables_code_required_witness:
  "load_data_from_csv
       \<lparr>fieldnames = Some [''topic'', ''title'', ''authors''],
        rows = [[''Vision'', ''Paper'', ''A. Author'']]\<rparr> =
     ([DetectedColumns (Some [''topic'', ''title'', ''authors''])],
      Inr [(PStr ''Vision'',
            [[(''topic'', PStr ''Vision''), (''title'', PStr ''Paper''),
              (''authors'', PStr ''A. Author'')]])])
   \<and> table_row [(''topic'', PStr ''Vision''), (''title'', PStr ''Paper''),
                 (''authors'', PStr ''A. Author'')] = Inl KeyError
   \<and> table_row ((''summary'', PStr '''') #
                 [(''topic'', PStr ''Vision''), (''title'', PStr ''Paper''),
                  (''authors'', PStr ''A. Author'')]) =
       table_row [(''topic'', PStr ''Vision''), (''title'', PStr ''Paper''),
                  (''authors'', PStr ''A. Author'')]
   \<and> generate_markdown_tables
        [(PStr ''Vision'',
          [[(''topic'', PStr ''Vision''), (''title'', PStr ''Paper''),
            (''authors'', PStr ''A. Author'')]])] = Inl KeyError"
proof -
  let ?e = "[(''topic'', PStr ''Vision''), (''title'', PStr ''Paper''),
             (''authors'', PStr ''A. Author'')]"
  let ?d = "[(PStr ''Vision'', [?e])]"
  have load: "load_data_from_csv
       \<lparr>fieldnames = Some [''topic'', ''title'', ''authors''],
        rows = [[''Vision'', ''Paper'', ''A. Author'']]\<rparr> =
     ([DetectedColumns (Some [''topic'', ''title'', ''authors''])], Inr ?d)"
    by (simp add: load_data_from_csv_def reader_rows_def dict_row_def dd_append_def dict_get_def)
  have h1: "map_of ?e ''code'' = None"
    by simp
  have h3: "''summary'' \<in> {''arxiv page'', ''project page'', ''summary''} \<and>
            map_of ?e ''summary'' = None"
    by simp
  have h5: "(PStr ''Vision'', [?e]) \<in> set ?d \<and> ?e \<in> set [?e] \<and> map_of ?e ''code'' = None \<and>
            (\<forall>(t, es') \<in> set ?d. \<forall>e' \<in> set es'. \<forall>k. map_of e' k \<noteq> Some PNone)"
    by simp
  note inst = generate_markdown_tables_code_required
               [of "?e" "''summary''" "PStr ''Vision''" "[?e]" "?d" "?e"]
  from inst h1 have c1: "table_row ?e = Inl KeyError"
    by blast
  from inst h3 have c3: "table_row ((''summary'', PStr '''') # ?e) = table_row ?e"
    by blast
  from inst h5 have c5: "generate_markdown_tables ?d = Inl KeyError"
    by blast
  from load c1 c3 c5 show ?thesis
    by (intro conjI)
qed

section \<open>Grouping with \<open>dd_append\<close>\<close>

lemma map_of_dict_set: "map_of (dict_set k v d) = (map_of d)(k \<mapsto> v)"
  by (induction d) (auto simp: fun_eq_iff)

lemma dict_set_absent: "k \<notin> fst ` set d \<Longrightarrow> dict_set k v d = d @ [(k, v)]"
  by (induction d) auto

lemma keys_dict_set_present: "k \<in> fst ` set d \<Longrightarrow> map fst (dict_set k v d) = map fst d"
  by (induction d) force+

lemma keys_dict_set:
  "map fst (dict_set k v d) = (if k \<in> set (map fst d) then map fst d else map fst d @ [k])"
  by (simp add: keys_dict_set_present dict_set_absent)

lemma distinct_dict_set: "distinct (map fst d) \<Longrightarrow> distinct (map fst (dict_set k v d))"
  by (simp add: keys_dict_set)

lemma map_of_dd_append:
  "map_of (dd_append k v d) k' =
     (if k' = k then Some (dict_get d k [] @ [v]) else map_of d k')"
  by (simp add: dd_append_def map_of_dict_set)

lemma dict_get_dd_append:
  "dict_get (dd_append k v d) k' [] =
     (if k' = k then dict_get d k [] @ [v] else dict_get d k' [])"
  by (simp add: dict_get_def map_of_dd_append)

lemma keys_dd_append:
  "map fst (dd_append k v d) = (if k \<in> set (map fst d) then map fst d else map fst d @ [k])"
  by (simp add: dd_append_def keys_dict_set)

lemma distinct_dd_append: "distinct (map fst d) \<Longrightarrow> distinct (map fst (dd_append k v d))"
  by (simp add: keys_dd_append)

text \<open>
  A loop that appends \<open>val x\<close> under \<open>key x\<close> for every \<open>x\<close> of a list: the keys stay
  distinct, the keys are those of the start and of the list, and under each key stand
  the values of the elements with that key, in their order.
\<close>

lemma distinct_fold_dd_append:
  "distinct (map fst d) \<Longrightarrow>
   distinct (map fst (fold (\<lambda>x. dd_append (key x) (val x)) xs d))"
  by (induction xs arbitrary: d) (simp_all add: distinct_dd_append)

lemma keys_fold_dd_append:
  "set (map fst (fold (\<lambda>x. dd_append (key x) (val x)) xs d)) = set (map fst d) \<union> key ` set xs"
proof (induction xs arbitrary: d)
  case Nil
  show ?case by simp
next
  case (Cons x xs)
  have "set (map fst (dd_append (key x) (val x) d)) = insert (key x) (set (map fst d))"
    by (auto simp: keys_dd_append)
  with Cons [of "dd_append (key x) (val x) d"] show ?case by auto
qed

lemma dict_get_fold_dd_append:
  "dict_get (fold (\<lambda>x. dd_append (key x) (val x)) xs d) k [] =
     dict_get d k [] @ map val (filter (\<lambda>x. key x = k) xs)"
  by (induction xs arbitrary: d) (simp_all add: dict_get_dd_append)

lemma map_of_fold_dd_append:
  "map_of (fold (\<lambda>x. dd_append (key x) (val x)) xs d) k =
     (if filter (\<lambda>x. key x = k) xs = [] then map_of d k
      else Some (dict_get d k [] @ map val (filter (\<lambda>x. key x = k) xs)))"
proof (induction xs arbitrary: d)
  case Nil
  show ?case by simp
next
  case (Cons x xs)
  show ?case
  proof (cases "key x = k")
    case True
    have "map_of (dd_append (key x) (val x) d) k = Some (dict_get d k [] @ [val x])"
      by (simp add: map_of_dd_append True)
    then have "dict_get (dd_append (key x) (val x) d) k [] = dict_get d k [] @ [val x]"
      by (simp add: dict_get_def)
    with Cons [of "dd_append (key x) (val x) d"] True
      \<open>map_of (dd_append (key x) (val x) d) k = Some (dict_get d k [] @ [val x])\<close>
    show ?thesis by simp
  next
    case False
    then have "map_of (dd_append (key x) (val x) d) k = map_of d k"
      and "dict_get (dd_append (key x) (val x) d) k [] = dict_get d k []"
      by (simp_all add: map_of_dd_append dict_get_dd_append)
    with Cons [of "dd_append (key x) (val x) d"] False show ?thesis by simp
  qed
qed

section \<open>Manual entries\<close>

lemma seven_parts:
  "length p = 7 \<Longrightarrow> \<exists>a b c d e f g. p = [a, b, c, d, e, f, g]"
  by (auto simp: eval_nat_numeral length_Suc_conv)

lemma manual_step_well_formed:
  assumes "length (py_split CHR '';'' entry) = 7"
  shows "manual_step entry (d, out) =
           (dd_append (PStr (py_split CHR '';'' entry ! 0))
              (manual_record (py_split CHR '';'' entry ! 1) (py_split CHR '';'' entry ! 2)
                 (py_split CHR '';'' entry ! 3) (py_split CHR '';'' entry ! 4)
                 (py_split CHR '';'' entry ! 5) (py_split CHR '';'' entry ! 6)) d, out)"
proof -
  obtain a b c d' e f g where p: "py_split CHR '';'' entry = [a, b, c, d', e, f, g]"
    using seven_parts [OF assms] by blast
  show ?thesis by (simp add: p)
qed

lemma manual_step_malformed:
  assumes "length (py_split CHR '';'' entry) \<noteq> 7"
  shows "manual_step entry (d, out) = (d, out @ [SkippingMalformed entry])"
  using assms by (auto simp: eval_nat_numeral split: list.splits)

text \<open>
  The loop over the entries: the malformed ones give the diagnostics, the well-formed
  ones are grouped under their first part.
\<close>

lemma fold_manual_step:
  "fold manual_step entries (d, out) =
     (fold (\<lambda>p. dd_append (PStr (p ! 0))
                   (manual_record (p ! 1) (p ! 2) (p ! 3) (p ! 4) (p ! 5) (p ! 6)))
        (filter (\<lambda>p. length p = 7) (map (py_split CHR '';'') entries)) d,
      out @ map SkippingMalformed
              (filter (\<lambda>e. length (py_split CHR '';'' e) \<noteq> 7) entries))"
proof (induction entries arbitrary: d out)
  case Nil
  show ?case by simp
next
  case (Cons e entries)
  show ?case
  proof (cases "length (py_split CHR '';'' e) = 7")
    case True
    show ?thesis
      by (simp only: fold_simps manual_step_well_formed [OF True] Cons.IH)
         (simp add: True)
  next
    case False
    show ?thesis
      by (simp only: fold_simps manual_step_malformed [OF False] Cons.IH)
         (simp add: False)
  qed
qed

lemma records_dd_append:
  "sum_list (map (\<lambda>(k, vs). length vs) (dd_append k v d)) =
     Suc (sum_list (map (\<lambda>(k, vs). length vs) d))"
  unfolding dd_append_def by (induction d) (auto simp: dict_get_def)

lemma records_fold_dd_append:
  "sum_list (map (\<lambda>(k, vs). length vs) (fold (\<lambda>x. dd_append (key x) (val x)) xs d)) =
     sum_list (map (\<lambda>(k, vs). length vs) d) + length xs"
  by (induction xs arbitrary: d) (simp_all add: records_dd_append)

text \<open>
  Claim C6. \<open>collect_manual_data\<close> never fails. The entries whose split on \<^verbatim>\<open>;\<close> does
  not give exactly 7 parts (that is, which do not hold exactly 6 semicolons) are each
  reported with a diagnostic, in their order, and contribute nothing else. Every other
  entry contributes exactly one record: the topics are distinct keys, the number of
  records is the number of well-formed entries, and under each topic stand, in order,
  the records of the well-formed entries with that first part, with the six other parts
  whitespace-trimmed.
\<close>

theorem collect_manual_data_seven_parts:
  "snd (collect_manual_data entries) =
     map SkippingMalformed (filter (\<lambda>e. length (py_split CHR '';'' e) \<noteq> 7) entries)
   \<and> distinct (map fst (fst (collect_manual_data entries)))
   \<and> sum_list (map (\<lambda>(topic, records). length records) (fst (collect_manual_data entries))) =
       length (filter (\<lambda>e. length (py_split CHR '';'' e) = 7) entries)
   \<and> (\<forall>k. map_of (fst (collect_manual_data entries)) k =
         (if filter (\<lambda>p. length p = 7 \<and> PStr (p ! 0) = k)
               (map (py_split CHR '';'') entries) = []
          then None
          else Some (map (\<lambda>p. manual_record (p ! 1) (p ! 2) (p ! 3) (p ! 4) (p ! 5) (p ! 6))
                       (filter (\<lambda>p. length p = 7 \<and> PStr (p ! 0) = k)
                          (map (py_split CHR '';'') entries)))))
   \<and> (length (py_split CHR '';'' e) = 7) = (count_list e CHR '';'' = 6)
   \<and> manual_record title authors code arxiv_page project_page summary =
       [(''title'', PStr (py_strip title)), (''authors'', PStr (py_strip authors)),
        (''code'', PStr (py_strip code)), (''arxiv page'', PStr (py_strip arxiv_page)),
        (''project page'', PStr (py_strip project_page)),
        (''summary'', PStr (py_strip summary))]
   \<and> collect_manual_data
         [''Vision; A paper ;Ann;https://github.com/o/r; ;;Short'', ''Vision;only two''] =
       ([(PStr ''Vision'',
          [[(''title'', PStr ''A paper''), (''authors'', PStr ''Ann''),
            (''code'', PStr ''https://github.com/o/r''), (''arxiv page'', PStr ''''),
            (''project page'', PStr ''''), (''summary'', PStr ''Short'')]])],
        [SkippingMalformed ''Vision;only two''])"
proof (intro conjI allI)
  let ?good = "filter (\<lambda>p. length p = 7) (map (py_split CHR '';'') entries)"
  let ?key = "\<lambda>p :: string list. PStr (p ! 0)"
  let ?val = "\<lambda>p. manual_record (p ! 1) (p ! 2) (p ! 3) (p ! 4) (p ! 5) (p ! 6)"
  have c: "collect_manual_data entries =
     (fold (\<lambda>p. dd_append (?key p) (?val p)) ?good [],
      map SkippingMalformed (filter (\<lambda>e. length (py_split CHR '';'' e) \<noteq> 7) entries))"
    by (simp add: collect_manual_data_def fold_manual_step)
  show "snd (collect_manual_data entries) =
     map SkippingMalformed (filter (\<lambda>e. length (py_split CHR '';'' e) \<noteq> 7) entries)"
    by (simp add: c)
  show "distinct (map fst (fst (collect_manual_data entries)))"
    unfolding c fst_conv by (rule distinct_fold_dd_append) simp
  have "sum_list (map (\<lambda>(topic, records). length records)
          (fold (\<lambda>p. dd_append (?key p) (?val p)) ?good [])) = length ?good"
    by (simp add: records_fold_dd_append)
  also have "length ?good = length (filter (\<lambda>e. length (py_split CHR '';'' e) = 7) entries)"
    by (simp add: filter_map comp_def)
  finally show "sum_list (map (\<lambda>(topic, records). length records)
         (fst (collect_manual_data entries))) =
       length (filter (\<lambda>e. length (py_split CHR '';'' e) = 7) entries)"
    by (simp add: c)
  show "map_of (fst (collect_manual_data entries)) k =
         (if filter (\<lambda>p. length p = 7 \<and> PStr (p ! 0) = k)
               (map (py_split CHR '';'') entries) = []
          then None
          else Some (map (\<lambda>p. manual_record (p ! 1) (p ! 2) (p ! 3) (p ! 4) (p ! 5) (p ! 6))
                       (filter (\<lambda>p. length p = 7 \<and> PStr (p ! 0) = k)
                          (map (py_split CHR '';'') entries))))" for k
  proof -
    have f: "filter (\<lambda>p. ?key p = k) ?good =
             filter (\<lambda>p. length p = 7 \<and> PStr (p ! 0) = k) (map (py_split CHR '';'') entries)"
      by simp
    have "map_of (fold (\<lambda>p. dd_append (?key p) (?val p)) ?good []) k =
            (if filter (\<lambda>p. ?key p = k) ?good = [] then map_of [] k
             else Some (dict_get [] k [] @ map ?val (filter (\<lambda>p. ?key p = k) ?good)))"
      by (rule map_of_fold_dd_append)
    then show ?thesis
      unfolding c fst_conv f by (simp add: dict_get_def)
  qed
  show "(length (py_split CHR '';'' e) = 7) = (count_list e CHR '';'' = 6)"
    by (simp add: length_py_split)
  show "manual_record title authors code arxiv_page project_page summary =
       [(''title'', PStr (py_strip title)), (''authors'', PStr (py_strip authors)),
        (''code'', PStr (py_strip code)), (''arxiv page'', PStr (py_strip arxiv_page)),
        (''project page'', PStr (py_strip project_page)),
        (''summary'', PStr (py_strip summary))]"
    by (simp add: manual_record_def)
  show "collect_manual_data
         [''Vision; A paper ;Ann;https://github.com/o/r; ;;Short'', ''Vision;only two''] =
       ([(PStr ''Vision'',
          [[(''title'', PStr ''A paper''), (''authors'', PStr ''Ann''),
            (''code'', PStr ''https://github.com/o/r''), (''arxiv page'', PStr ''''),
            (''project page'', PStr ''''), (''summary'', PStr ''Short'')]])],
        [SkippingMalformed ''Vision;only two''])"
    by (simp add: collect_manual_data_def manual_record_def dd_append_def dict_get_def
          py_strip_def py_isspace_def)
qed

section \<open>CSV rows\<close>









lemma load_data_from_csv_no_header:
  "fieldnames reader = None \<Longrightarrow> snd (load_data_from_csv reader) = Inl TypeError"
  by (simp add: load_data_from_csv_def)




section \<open>Tables and sections\<close>






section \<open>Lines of the generated content\<close>





















end
